theory Spec2Isabelle
  imports Main "HOL-Library.Sublist" "HOL-Library.Char_ord"
begin

section \<open>Python strings\<close>

text \<open>
  A Python \<open>str\<close> is modelled as a \<open>string\<close>; a \<open>char\<close> stands for a code point
  below 256. \<open>py_isspace\<close> lists the code points that \<open>str.strip()\<close> removes and that
  the regular expression class \<open>\s\<close> matches in that range.
\<close>

definition py_isspace :: "char \<Rightarrow> bool" where
  "py_isspace c = (c \<in> set [CHR 0x09, CHR 0x0A, CHR 0x0B, CHR 0x0C, CHR 0x0D,
      CHR 0x1C, CHR 0x1D, CHR 0x1E, CHR 0x1F, CHR 0x20, CHR 0x85, CHR 0xA0])"

definition py_strip :: "string \<Rightarrow> string" where
  "py_strip s = rev (dropWhile py_isspace (rev (dropWhile py_isspace s)))"

text \<open>\<open>s.split(d)\<close> for a one-character separator: never the empty list.\<close>

fun py_split :: "char \<Rightarrow> string \<Rightarrow> string list" where
  "py_split d [] = [[]]"
| "py_split d (c # cs) =
     (if c = d then [] # py_split d cs
      else (case py_split d cs of [] \<Rightarrow> [[c]] | w # ws \<Rightarrow> (c # w) # ws))"


section \<open>The element tree of lxml\<close>

text \<open>
  An element has a tag, attributes, the text before its first child, its children and the
  text after its closing tag. Comment and processing-instruction nodes, whose \<open>tag\<close> is
  not a string in lxml, are elements whose tag is no element name.
\<close>

datatype elem =
  Elem (tag: string) (attrib: "(string \<times> string) list") (etext: "string option")
       (children: "elem list") (tail: "string option")

text \<open>\<open>elem.clear()\<close>: all subelements, attributes, text and tail are removed.\<close>

definition clear :: "elem \<Rightarrow> elem" where
  "clear el = Elem (tag el) [] None [] None"

text \<open>\<open>elem.find(path)\<close> for a plain tag name: the first child with that tag.\<close>

definition find_child :: "elem \<Rightarrow> string \<Rightarrow> elem option" where
  "find_child el path = List.find (\<lambda>c. tag c = path) (children el)"

text \<open>\<open>elem.findtext(path)\<close>: \<open>el.text or ''\<close> of the first match, else \<open>None\<close>.\<close>

definition findtext :: "elem \<Rightarrow> string \<Rightarrow> string option" where
  "findtext el path =
     (case find_child el path of
        None \<Rightarrow> None
      | Some c \<Rightarrow> Some (case etext c of None \<Rightarrow> [] | Some t \<Rightarrow> t))"

text \<open>\<open>elem.findtext(path, "")\<close>: with a string as default the result is a string.\<close>

definition findtext_or :: "elem \<Rightarrow> string \<Rightarrow> string \<Rightarrow> string" where
  "findtext_or el path dflt =
     (case find_child el path of
        None \<Rightarrow> dflt
      | Some c \<Rightarrow> (case etext c of None \<Rightarrow> [] | Some t \<Rightarrow> t))"

definition findall :: "elem \<Rightarrow> string \<Rightarrow> elem list" where
  "findall el path = filter (\<lambda>c. tag c = path) (children el)"

text \<open>\<open>elem.get(key)\<close>: the attribute's value, or \<open>None\<close>.\<close>

definition get_attr :: "elem \<Rightarrow> string \<Rightarrow> string option" where
  "get_attr el key = map_of (attrib el) key"

text \<open>
  The loop \<open>for event, elem in ET.iterparse(path, events=...)\<close>: for the requested
  events, the body runs with \<open>Start\<close> when an element opens and with \<open>End\<close> when it
  closes, in document order. What the body does to the element of a start event is not
  modelled: the loops of this repository that ask for start events leave it alone. The elements are shared with the tree under construction, so what the
  body does to an element at its end event (\<open>clear\<close>) is what the parent holds as its
  child afterwards. With an end event the element's subtree is complete.
\<close>

datatype event = Start | End

fun for_events ::
    "event list \<Rightarrow> (event \<Rightarrow> elem \<Rightarrow> 's \<Rightarrow> elem \<times> 's) \<Rightarrow> elem \<Rightarrow> 's \<Rightarrow> elem \<times> 's"
  and for_events_list ::
    "event list \<Rightarrow> (event \<Rightarrow> elem \<Rightarrow> 's \<Rightarrow> elem \<times> 's) \<Rightarrow> elem list \<Rightarrow> 's \<Rightarrow> elem list \<times> 's"
where
  "for_events events body (Elem t a x cs tx) s =
     (let s0 = (if Start \<in> set events then snd (body Start (Elem t a x cs tx) s) else s);
          (cs', s1) = for_events_list events body cs s0
      in if End \<in> set events then body End (Elem t a x cs' tx) s1
         else (Elem t a x cs' tx, s1))"
| "for_events_list events body [] s = ([], s)"
| "for_events_list events body (c # cs) s =
     (let (c', s1) = for_events events body c s;
          (cs', s2) = for_events_list events body cs s1
      in (c' # cs', s2))"

section \<open>sou\_parser.py\<close>

datatype error = AttributeError | UnboundLocalError | KeyError

text \<open>
  \<open>extract_class_name(full_name)\<close> is \<open>full_name.split(".")[-1]\<close>; it is called with the
  result of \<open>findtext\<close>, which is \<open>None\<close> when the child is missing, and \<open>None.split\<close>
  raises \<open>AttributeError\<close>.
\<close>

definition extract_class_name :: "string option \<Rightarrow> error + string" where
  "extract_class_name full_name =
     (case full_name of
        None \<Rightarrow> Inl AttributeError
      | Some s \<Rightarrow> Inr (last (py_split CHR ''.'' s)))"

text \<open>A yielded record is a Python dict from field names to strings.\<close>

type_synonym symbol = "string \<rightharpoonup> string"

text \<open>
  The local variables of the generator \<open>parse\<close>, the number of \<open>uuid.uuid4()\<close> calls made
  so far, the records yielded so far, and the exception that ended the generator, if any.
  \<open>class_name\<close> is \<open>None\<close> while the local variable is unbound.
\<close>

record parse_state =
  pending_class :: "symbol option"
  types_count :: nat
  methods_count :: nat
  class_name :: "string option"
  uuid_calls :: nat
  yielded :: "symbol list"
  raised :: "error option"

definition parse_init :: parse_state where
  "parse_init = \<lparr>pending_class = None, types_count = 0, methods_count = 0,
      class_name = None, uuid_calls = 0, yielded = [], raised = None\<rparr>"

text \<open>\<open>str(x)\<close> inside an f-string: \<open>None\<close> is written \<open>None\<close>.\<close>

definition fmt :: "string option \<Rightarrow> string" where
  "fmt x = (case x of None \<Rightarrow> ''None'' | Some s \<Rightarrow> s)"

text \<open>
  The loop \<open>for body in elem.findall("body")\<close> of the methods branch. Reading the unbound
  local \<open>class_name\<close> raises \<open>UnboundLocalError\<close>. \<open>uuid4\<close> gives the value of the k-th
  call of \<open>str(uuid.uuid4())\<close>.
\<close>

fun yield_methods :: "(nat \<Rightarrow> string) \<Rightarrow> elem list \<Rightarrow> parse_state \<Rightarrow> parse_state" where
  "yield_methods uuid4 [] s = s"
| "yield_methods uuid4 (body # bodies) s =
     (let s1 = s\<lparr>methods_count := methods_count s + 1\<rparr> in
      case class_name s1 of
        None \<Rightarrow> s1\<lparr>raised := Some UnboundLocalError\<rparr>
      | Some cn \<Rightarrow>
          yield_methods uuid4 bodies
            (s1\<lparr>yielded := yielded s1 @
                   [[''name'' \<mapsto> cn @ ''.'' @ fmt (get_attr body ''selector''),
                     ''type'' \<mapsto> ''SymbolType.METHOD'',
                     ''comment'' \<mapsto> '''',
                     ''body'' \<mapsto> py_strip (case etext body of None \<Rightarrow> [] | Some t \<Rightarrow> t),
                     ''id'' \<mapsto> uuid4 (uuid_calls s1)]],
                 uuid_calls := Suc (uuid_calls s1)\<rparr>))"

text \<open>
  The body of the \<open>for\<close> loop of \<open>parse\<close>, branch by branch. \<open>tostring\<close> is lxml's
  \<open>ET.tostring(e, encoding="unicode", method="xml")\<close>. The \<open>print\<close> of the \<open>except\<close>
  clause is not modelled.
\<close>

definition class_branch ::
  "(nat \<Rightarrow> string) \<Rightarrow> (elem \<Rightarrow> string) \<Rightarrow> elem \<Rightarrow> parse_state \<Rightarrow> elem \<times> parse_state"
where
  "class_branch uuid4 tostring el s =
     (case extract_class_name (findtext el ''name'') of
        Inl err \<Rightarrow> (el, s\<lparr>raised := Some err\<rparr>)
      | Inr name \<Rightarrow>
          let inner_xml = py_strip (concat (map tostring (children el))) in
          (el, s\<lparr>pending_class :=
                    Some [''name'' \<mapsto> name,
                          ''type'' \<mapsto> ''SymbolType.TYPE'',
                          ''body'' \<mapsto> inner_xml,
                          ''comment'' \<mapsto> '''',
                          ''id'' \<mapsto> uuid4 (uuid_calls s)],
                  uuid_calls := Suc (uuid_calls s)\<rparr>))"

definition comment_branch :: "elem \<Rightarrow> symbol \<Rightarrow> parse_state \<Rightarrow> elem \<times> parse_state" where
  "comment_branch el pc s =
     (case extract_class_name (Some (findtext_or el ''class-id'' '''')) of
        Inl err \<Rightarrow> (el, s\<lparr>raised := Some err\<rparr>)
      | Inr comment_class_id \<Rightarrow>
          (case pc ''name'' of
             None \<Rightarrow> (el, s\<lparr>raised := Some KeyError\<rparr>)
           | Some pname \<Rightarrow>
               let pc1 = (if suffix pname comment_class_id
                          then pc(''comment'' \<mapsto> py_strip (findtext_or el ''body'' ''''))
                          else pc)
               in (clear el,
                   s\<lparr>pending_class := None,
                     types_count := types_count s + 1,
                     yielded := yielded s @ [pc1]\<rparr>)))"

definition methods_branch :: "(nat \<Rightarrow> string) \<Rightarrow> elem \<Rightarrow> parse_state \<Rightarrow> elem \<times> parse_state" where
  "methods_branch uuid4 el s =
     (let s1 = (case extract_class_name (findtext el ''class-id'') of
                  Inl err \<Rightarrow> s
                | Inr cn \<Rightarrow> s\<lparr>class_name := Some cn\<rparr>);
          s2 = yield_methods uuid4 (findall el ''body'') s1
      in if raised s2 \<noteq> None then (el, s2) else (clear el, s2))"

definition pending_branch :: "elem \<Rightarrow> symbol \<Rightarrow> parse_state \<Rightarrow> elem \<times> parse_state" where
  "pending_branch el pc s =
     (clear el, s\<lparr>pending_class := None, yielded := yielded s @ [pc]\<rparr>)"

text \<open>
  The chain of conditions, in the order of the source. A dict with the five keys is
  truthy, so \<open>pending_class\<close> is truthy exactly when it is not \<open>None\<close>. Once an exception
  has left the generator, no later event is handled.
\<close>

definition loop_body ::
  "(nat \<Rightarrow> string) \<Rightarrow> (elem \<Rightarrow> string) \<Rightarrow> event \<Rightarrow> elem \<Rightarrow> parse_state \<Rightarrow> elem \<times> parse_state"
where
  "loop_body uuid4 tostring ev el s =
    (if raised s \<noteq> None then (el, s)
     else if ev = End \<and> tag el \<in> set [''class'', ''comment'', ''methods''] then
       if tag el = ''class'' then class_branch uuid4 tostring el s
       else if tag el = ''comment'' \<and> pending_class s \<noteq> None then
         (case pending_class s of None \<Rightarrow> (el, s) | Some pc \<Rightarrow> comment_branch el pc s)
       else if tag el = ''methods'' then methods_branch uuid4 el s
       else if pending_class s \<noteq> None then
         (case pending_class s of None \<Rightarrow> (el, s) | Some pc \<Rightarrow> pending_branch el pc s)
       else (clear el, s)
     else (el, s))"

text \<open>
  \<open>parse(path)\<close>, consumed to its end, on the tree that the recovering parser builds for
  the file: the records yielded, in order, and the exception that ended it, if any.
\<close>

definition parse :: "(nat \<Rightarrow> string) \<Rightarrow> (elem \<Rightarrow> string) \<Rightarrow> elem \<Rightarrow> symbol list \<times> error option" where
  "parse uuid4 tostring root =
     (let s = snd (for_events [Start, End] (loop_body uuid4 tostring) root parse_init)
      in (yielded s, raised s))"

text \<open>
  \<open>parse_metadata(path)\<close> asks for end events only. \<open>if class_name and selector\<close>
  holds when both are strings and neither is empty.
\<close>

definition truthy :: "string option \<Rightarrow> bool" where
  "truthy x = (case x of None \<Rightarrow> False | Some s \<Rightarrow> s \<noteq> [])"

definition add_fqdn :: "string option \<Rightarrow> elem \<Rightarrow> string set \<Rightarrow> string set" where
  "add_fqdn cn body fqdn_set =
     (let selector = get_attr body ''selector'' in
      if truthy cn \<and> truthy selector
      then insert (fmt cn @ ''.'' @ fmt selector) fqdn_set
      else fqdn_set)"

definition metadata_body :: "event \<Rightarrow> elem \<Rightarrow> string set \<Rightarrow> elem \<times> string set" where
  "metadata_body ev el fqdn_set =
     (if tag el = ''methods'' then
        (let cn = findtext el ''class-id''
         in (clear el, fold (add_fqdn cn) (findall el ''body'') fqdn_set))
      else (el, fqdn_set))"

definition parse_metadata :: "elem \<Rightarrow> string set" where
  "parse_metadata root = snd (for_events [End] metadata_body root {})"

section \<open>truncate\_xml.py: balancing tags\<close>

text \<open>
  The character classes of the patterns: \<open>[a-zA-Z]\<close>, and \<open>[\w-]\<close>, where \<open>\w\<close> on a
  \<open>str\<close> pattern is the underscore and every alphanumeric code point.
\<close>

definition is_ascii_letter :: "char \<Rightarrow> bool" where
  "is_ascii_letter c =
     ((CHR ''a'' \<le> c \<and> c \<le> CHR ''z'') \<or> (CHR ''A'' \<le> c \<and> c \<le> CHR ''Z''))"

definition is_word :: "char \<Rightarrow> bool" where
  "is_word c =
     (is_ascii_letter c \<or> (CHR ''0'' \<le> c \<and> c \<le> CHR ''9'') \<or> c = CHR ''_'' \<or>
      c \<in> set [CHR 0xAA, CHR 0xB2, CHR 0xB3, CHR 0xB5, CHR 0xB9, CHR 0xBA,
                 CHR 0xBC, CHR 0xBD, CHR 0xBE] \<or>
      (CHR 0xC0 \<le> c \<and> c \<le> CHR 0xD6) \<or> (CHR 0xD8 \<le> c \<and> c \<le> CHR 0xF6) \<or>
      CHR 0xF8 \<le> c)"

definition is_name_char :: "char \<Rightarrow> bool" where
  "is_name_char c = (is_word c \<or> c = CHR ''-'')"

text \<open>
  \<open>opening_pattern = <([a-zA-Z][\w-]*)[^/>]*(?<!/)>\<close>, tried at the head of a string:
  the group and what follows the match. Both stars are greedy and what each one stops at
  cannot be matched by what comes next in the pattern, so giving characters back never
  helps: the name is the longest run of name characters, the run of \<open>[^/>]\<close> ends at the
  first slash or closing bracket, and only a closing bracket there gives a match. The
  character before that bracket is then never a slash.
\<close>

definition match_opening :: "string \<Rightarrow> (string \<times> string) option" where
  "match_opening s =
     (case s of
        lt # c # r \<Rightarrow>
          if lt = CHR ''<'' \<and> is_ascii_letter c then
            (let name = c # takeWhile is_name_char r;
                 after = dropWhile (\<lambda>x. x \<noteq> CHR ''/'' \<and> x \<noteq> CHR ''>'') (dropWhile is_name_char r)
             in case after of
                  x # rest \<Rightarrow> if x = CHR ''>'' then Some (name, rest) else None
                | [] \<Rightarrow> None)
          else None
      | _ \<Rightarrow> None)"

text \<open>\<open>closing_pattern = </([a-zA-Z][\w-]*)>\<close>, tried at the head of a string.\<close>

definition match_closing :: "string \<Rightarrow> (string \<times> string) option" where
  "match_closing s =
     (case s of
        lt # sl # c # r \<Rightarrow>
          if lt = CHR ''<'' \<and> sl = CHR ''/'' \<and> is_ascii_letter c then
            (case dropWhile is_name_char r of
               x # rest \<Rightarrow> if x = CHR ''>'' then Some (c # takeWhile is_name_char r, rest) else None
             | [] \<Rightarrow> None)
          else None
      | _ \<Rightarrow> None)"

lemma match_opening_shorter: "match_opening s = Some (g, rest) \<Longrightarrow> length rest < length s"
proof -
  have d: "length (dropWhile P xs) \<le> length xs" for P and xs :: string
    by (induction xs) auto
  assume m: "match_opening s = Some (g, rest)"
  then obtain lt c r where s: "s = lt # c # r"
    by (cases s; cases "tl s") (auto simp: match_opening_def)
  let ?a = "dropWhile (\<lambda>x. x \<noteq> CHR ''/'' \<and> x \<noteq> CHR ''>'') (dropWhile is_name_char r)"
  from m s obtain x where "?a = x # rest"
    by (auto simp: match_opening_def Let_def split: if_splits list.splits)
  moreover have "length ?a \<le> length r"
    using d [of _ "dropWhile is_name_char r"] d [of is_name_char r] by (meson le_trans)
  ultimately show ?thesis using s by simp
qed

lemma match_closing_shorter: "match_closing s = Some (g, rest) \<Longrightarrow> length rest < length s"
proof -
  have d: "length (dropWhile P xs) \<le> length xs" for P and xs :: string
    by (induction xs) auto
  assume m: "match_closing s = Some (g, rest)"
  then obtain lt sl c r where s: "s = lt # sl # c # r"
    by (cases s; cases "tl s"; cases "tl (tl s)") (auto simp: match_closing_def)
  from m s obtain x where "dropWhile is_name_char r = x # rest"
    by (auto simp: match_closing_def split: if_splits list.splits)
  then show ?thesis using s d [of is_name_char r] by simp
qed










section \<open>truncate\_xml.py: the three tiers\<close>




text \<open>\<open>f.readlines()\<close> and iteration over the file: each line keeps its line feed.\<close>

fun readlines :: "string \<Rightarrow> string list" where
  "readlines [] = []"
| "readlines (c # cs) =
     (if c = CHR 0x0A then [c] # readlines cs
      else (case readlines cs of [] \<Rightarrow> [[c]] | l # ls \<Rightarrow> (c # l) # ls))"

text \<open>\<open>for i, line in enumerate(f): if i >= max_lines: break; lines.append(line)\<close>\<close>

fun first_lines :: "nat \<Rightarrow> int \<Rightarrow> string list \<Rightarrow> string list" where
  "first_lines i max_lines [] = []"
| "first_lines i max_lines (line # rest) =
     (if int i \<ge> max_lines then [] else line # first_lines (i + 1) max_lines rest)"


section \<open>truncate\_xml\_new.py: priority classes\<close>


























section \<open>CreateIndexes.py\<close>

text \<open>The dict \<open>indexes\<close>, in the order in which \<open>indexes.items()\<close> gives its entries.\<close>

definition indexes :: "(string \<times> string) list" where
  "indexes =
     [(''idx_symbol_calls_lookup'',
       ''\<newline>            CREATE INDEX idx_symbol_calls_lookup IF NOT EXISTS\<newline>            FOR (s:Symbol) ON (s.repository_url, s.type, s.fq_name)\<newline>        ''),
      (''idx_symbol_type_lookup'',
       ''\<newline>            CREATE INDEX idx_symbol_type_lookup IF NOT EXISTS\<newline>            FOR (s:Symbol) ON (s.repository_url, s.type, s.fq_name, s.file_path)\<newline>        ''),
      (''idx_symbol_file_path'',
       ''\<newline>            CREATE INDEX idx_symbol_file_path IF NOT EXISTS\<newline>            FOR (s:Symbol) ON (s.repository_url, s.file_path)\<newline>        ''),
      (''idx_symbol_namespace'',
       ''\<newline>            CREATE INDEX idx_symbol_namespace IF NOT EXISTS\<newline>            FOR (s:Symbol) ON (s.namespace)\<newline>        ''),
      (''idx_namespace_repo_name'',
       ''\<newline>            CREATE INDEX idx_namespace_repo_name IF NOT EXISTS\<newline>            FOR (n:Namespace) ON (n.repository_url, n.name)\<newline>        ''),
      (''idx_file_repo_path'',
       ''\<newline>            CREATE INDEX idx_file_repo_path IF NOT EXISTS\<newline>            FOR (f:File) ON (f.repository_url, f.path)\<newline>        ''),
      (''idx_repository_url'',
       ''\<newline>            CREATE INDEX idx_repository_url IF NOT EXISTS\<newline>            FOR (r:Repository) ON (r.url)\<newline>        '')]"

text \<open>
  What the statement loop prints for one statement (the elapsed time is left out), and
  the loop. \<open>run\<close> stands for \<open>session.run\<close> on the database: it returns the database
  afterwards and, when it raised an exception, the exception's text. The handler is
  \<open>except Exception\<close>: the failure is printed and the loop goes on.
\<close>

datatype printed = Created string | Failed string string


fun statement_loop ::
  "('db \<Rightarrow> string \<Rightarrow> 'db \<times> string option) \<Rightarrow> (string \<times> string) list \<Rightarrow> 'db \<times> printed list \<Rightarrow>
   'db \<times> printed list"
where
  "statement_loop run [] st = st"
| "statement_loop run ((index_name, index_query) # rest) (db, out) =
     (case run db index_query of
        (db1, None) \<Rightarrow> statement_loop run rest (db1, out @ [Created index_name])
      | (db1, Some e) \<Rightarrow> statement_loop run rest (db1, out @ [Failed index_name e]))"

text \<open>
  \<open>create_indexes()\<close>: the loop, then \<open>SHOW INDEXES\<close> in a second session, outside any
  handler. \<open>show_indexes\<close> gives the records printed or the exception raised.
\<close>

definition create_indexes ::
  "('db \<Rightarrow> string \<Rightarrow> 'db \<times> string option) \<Rightarrow> ('db \<Rightarrow> string + 'r list) \<Rightarrow> 'db \<Rightarrow>
   'db \<times> printed list \<times> (string + 'r list)"
where
  "create_indexes run show_indexes db =
     (case statement_loop run indexes (db, []) of
        (db1, out) \<Rightarrow> (db1, out, show_indexes db1))"





section \<open>Sample documents and invariants\<close>

text \<open>
  A small document: one class, its comment, and a methods block with two methods.
\<close>

definition sample_class :: elem where
  "sample_class =
     Elem ''class'' [] None
       [Elem ''name'' [] (Some ''Foo'') [] None,
        Elem ''super'' [] (Some ''Core.Object'') [] None] None"

definition sample_comment :: elem where
  "sample_comment =
     Elem ''comment'' [] None
       [Elem ''class-id'' [] (Some ''Foo'') [] None,
        Elem ''body'' [] (Some ''  A class. '') [] None] None"

definition sample_methods :: elem where
  "sample_methods =
     Elem ''methods'' [] None
       [Elem ''class-id'' [] (Some ''Foo'') [] None,
        Elem ''body'' [(''selector'', ''bar'')] (Some ''bar ^1'') [] None,
        Elem ''body'' [(''selector'', ''baz:'')] (Some ''baz: x ^x '') [] None] None"

definition sample_doc :: elem where
  "sample_doc = Elem ''st-source'' [] None [sample_class, sample_comment, sample_methods] None"

definition sample_uuid4 :: "nat \<Rightarrow> string" where
  "sample_uuid4 k = ''uuid-'' @ replicate k (CHR ''i'')"

definition sample_tostring :: "elem \<Rightarrow> string" where
  "sample_tostring e = ''<'' @ tag e @ ''/>''"

text \<open>
  What holds of the state of \<open>parse\<close> at every point: each record yielded has the five
  keys and is a \<open>TYPE\<close> record or a \<open>METHOD\<close> record with empty comment, and the pending
  class is a \<open>TYPE\<close> record with the five keys.
\<close>

definition symbol_ok :: "symbol \<Rightarrow> bool" where
  "symbol_ok r = (dom r = {''name'', ''type'', ''body'', ''comment'', ''id''} \<and>
     (r ''type'' = Some ''SymbolType.TYPE'' \<or>
      (r ''type'' = Some ''SymbolType.METHOD'' \<and> r ''comment'' = Some '''')))"

definition pending_ok :: "symbol \<Rightarrow> bool" where
  "pending_ok r = (dom r = {''name'', ''type'', ''body'', ''comment'', ''id''} \<and>
     r ''type'' = Some ''SymbolType.TYPE'')"

definition state_ok :: "parse_state \<Rightarrow> bool" where
  "state_ok s = ((\<forall>r \<in> set (yielded s). symbol_ok r) \<and>
                 (\<forall>pc. pending_class s = Some pc \<longrightarrow> pending_ok pc))"

text \<open>
  Two documents with a class that no comment follows: in the first the next class
  follows it, in the second its methods block.
\<close>

definition two_classes_doc :: elem where
  "two_classes_doc =
     Elem ''st-source'' [] None
       [Elem ''class'' [] None [Elem ''name'' [] (Some ''A'') [] None] None,
        Elem ''class'' [] None [Elem ''name'' [] (Some ''B'') [] None] None,
        Elem ''comment'' [] None
          [Elem ''class-id'' [] (Some ''B'') [] None,
           Elem ''body'' [] (Some ''about B'') [] None] None]
       None"

definition class_methods_doc :: elem where
  "class_methods_doc =
     Elem ''st-source'' [] None
       [Elem ''class'' [] None [Elem ''name'' [] (Some ''A'') [] None] None,
        Elem ''methods'' [] None
          [Elem ''class-id'' [] (Some ''A'') [] None,
           Elem ''body'' [(''selector'', ''m'')] (Some ''m ^1'') [] None] None]
       None"

text \<open>All tags of a tree, and the trees in which \<open>parse\<close> finds nothing to react to.\<close>

fun tags_of :: "elem \<Rightarrow> string list" where
  "tags_of (Elem t a x cs tx) = t # concat (map tags_of cs)"

definition watched :: "string \<Rightarrow> bool" where
  "watched t = (t \<in> set [''class'', ''comment'', ''methods''])"

definition plain :: "elem \<Rightarrow> bool" where
  "plain e = (\<forall>t \<in> set (tags_of e). \<not> watched t)"

text \<open>
  For the identifiers: a source of identifiers whose k-th value shows k, and the record
  (or the state) in which each identifier drawn from that source is replaced by the
  value that the source \<open>u\<close> gives at the same draw.
\<close>

definition index_uuid4 :: "nat \<Rightarrow> string" where
  "index_uuid4 k = replicate k (CHR ''i'')"

definition relabel :: "(nat \<Rightarrow> string) \<Rightarrow> symbol \<Rightarrow> symbol" where
  "relabel u r = (case r ''id'' of None \<Rightarrow> r | Some i \<Rightarrow> r(''id'' \<mapsto> u (length i)))"

definition relabel_state :: "(nat \<Rightarrow> string) \<Rightarrow> parse_state \<Rightarrow> parse_state" where
  "relabel_state u s =
     s\<lparr>pending_class := map_option (relabel u) (pending_class s),
       yielded := map (relabel u) (yielded s)\<rparr>"

text \<open>
  The records of a state, and the state invariant: every record holds an identifier
  drawn from the index source at a draw already made, and no two records share a draw.
\<close>

definition records_of :: "parse_state \<Rightarrow> symbol list" where
  "records_of s = yielded s @ (case pending_class s of None \<Rightarrow> [] | Some pc \<Rightarrow> [pc])"

definition draw_of :: "symbol \<Rightarrow> nat option" where
  "draw_of r = map_option length (r ''id'')"

definition draws_ok :: "parse_state \<Rightarrow> bool" where
  "draws_ok s =
     (distinct (map draw_of (records_of s)) \<and>
      (\<forall>r \<in> set (records_of s). \<exists>k < uuid_calls s. r ''id'' = Some (index_uuid4 k)))"

section \<open>What balance\_xml\_tags appends; nesting of tags\<close>



text \<open>
  Specification side, not taken from the code: the nesting that well-formed XML needs.
  \<open>tag_contents\<close> collects what stands between each \<open><\<close> and the next \<open>>\<close>. A closing
  tag has to name the innermost open element, and no element may stay open. Declarations,
  comments and self-closing tags open nothing. Every well-formed document whose text,
  comments and attribute values hold no \<open>>\<close> is \<open>properly_nested\<close>.
\<close>

datatype xml_token = OpenTag string | CloseTag string

fun tag_contents :: "string option \<Rightarrow> string \<Rightarrow> string list" where
  "tag_contents None [] = []"
| "tag_contents (Some acc) [] = []"
| "tag_contents None (c # cs) =
     (if c = CHR ''<'' then tag_contents (Some []) cs else tag_contents None cs)"
| "tag_contents (Some acc) (c # cs) =
     (if c = CHR ''>'' then acc # tag_contents None cs else tag_contents (Some (acc @ [c])) cs)"

definition xml_token_of :: "string \<Rightarrow> xml_token list" where
  "xml_token_of content =
     (case content of
        [] \<Rightarrow> []
      | x # name \<Rightarrow>
          if x = CHR ''/'' then [CloseTag name]
          else if x = CHR ''?'' \<or> x = CHR ''!'' \<or> last content = CHR ''/'' then []
          else [OpenTag (takeWhile (\<lambda>y. \<not> py_isspace y) content)])"

fun nested :: "xml_token list \<Rightarrow> string list \<Rightarrow> bool" where
  "nested [] stack = (stack = [])"
| "nested (OpenTag t # rest) stack = nested rest (t # stack)"
| "nested (CloseTag t # rest) stack =
     (case stack of [] \<Rightarrow> False | x # stack1 \<Rightarrow> x = t \<and> nested rest stack1)"

definition properly_nested :: "string \<Rightarrow> bool" where
  "properly_nested s = nested (concat (map xml_token_of (tag_contents None s))) []"

text \<open>
  A file in the layout of a .sou export, and its first four lines: the cut falls inside
  the \<open>body\<close> element.
\<close>

definition sou_file :: string where
  "sou_file = ''<st-source>\<newline><methods>\<newline><class-id>Foo</class-id> <category>accessing</category>\<newline><body>bar\<newline>  ^1</body>\<newline></methods>\<newline></st-source>\<newline>''"

definition cut_sample :: string where
  "cut_sample = concat (first_lines 0 4 (readlines sou_file))"



section \<open>The order of the tiers; stand-ins for the library\<close>





section \<open>A database for the examples\<close>


section \<open>Method names of a document\<close>

text \<open>
  The names of the \<open>METHOD\<close> records in a list of records; the names that
  \<open>parse_metadata\<close> forms for one methods element; the elements of a tree; the names
  that one element adds.
\<close>

definition method_names :: "symbol list \<Rightarrow> string set" where
  "method_names rs =
     {n. \<exists>r \<in> set rs. r ''type'' = Some ''SymbolType.METHOD'' \<and> r ''name'' = Some n}"

definition fqdn_list :: "string option \<Rightarrow> string option list \<Rightarrow> string list" where
  "fqdn_list cn selectors =
     map (\<lambda>selector. fmt cn @ ''.'' @ fmt selector)
       (filter (\<lambda>selector. truthy cn \<and> truthy selector) selectors)"

definition names_of :: "elem \<Rightarrow> string set" where
  "names_of m =
     set (fqdn_list (findtext m ''class-id'')
            (map (\<lambda>b. get_attr b ''selector'') (findall m ''body'')))"

fun elems_of :: "elem \<Rightarrow> elem list" where
  "elems_of (Elem t a x cs tx) = Elem t a x cs tx # concat (map elems_of cs)"

definition adds :: "elem \<Rightarrow> string set" where
  "adds m = (if tag m = ''methods'' then names_of m else {})"

text \<open>
  An element on which the two functions agree: a class has a name child; a methods
  block has a class-id that is not empty and holds no dot, and each of its bodies has a
  selector that is not empty.
\<close>

definition regular_node :: "elem \<Rightarrow> bool" where
  "regular_node m =
     ((tag m = ''class'' \<longrightarrow> findtext m ''name'' \<noteq> None) \<and>
      (tag m = ''methods'' \<longrightarrow>
         (\<exists>cid. findtext m ''class-id'' = Some cid \<and> cid \<noteq> [] \<and> CHR ''.'' \<notin> set cid) \<and>
         (\<forall>b \<in> set (findall m ''body'').
            \<exists>sel. get_attr b ''selector'' = Some sel \<and> sel \<noteq> [])))"

text \<open>
  How an element of the tree under construction relates to the element of the file: the
  tag stays, and so do attributes and text unless the tag is one whose elements the loop
  clears.
\<close>

definition same_view :: "elem \<Rightarrow> elem \<Rightarrow> bool" where
  "same_view e0 e =
     (tag e = tag e0 \<and> (\<not> watched (tag e0) \<longrightarrow> attrib e = attrib e0 \<and> etext e = etext e0))"

text \<open>A methods block whose class-id is qualified.\<close>

definition qualified_doc :: elem where
  "qualified_doc =
     Elem ''st-source'' [] None
       [Elem ''methods'' [] None
          [Elem ''class-id'' [] (Some ''Core.Foo'') [] None,
           Elem ''body'' [(''selector'', ''bar'')] (Some ''bar ^1'') [] None] None]
       None"

section \<open>The events loop keeps invariants\<close>

lemma for_events_invariant:
  shows "\<forall>ev el s. I s \<longrightarrow> I (snd (body ev el s)) \<Longrightarrow> I s \<Longrightarrow> I (snd (for_events evs body e s))"
    and "\<forall>ev el s. I s \<longrightarrow> I (snd (body ev el s)) \<Longrightarrow> I s \<Longrightarrow> I (snd (for_events_list evs body es s))"
proof (induction evs body e s and evs body es s rule: for_events_for_events_list.induct)
  case (1 events body t a x cs tx s)
  define s0 where "s0 = (if Start \<in> set events then snd (body Start (Elem t a x cs tx) s) else s)"
  obtain cs' s1 where r: "for_events_list events body cs s0 = (cs', s1)"
    by (cases "for_events_list events body cs s0")
  have "I s0" using "1.prems" by (simp add: s0_def)
  then have "I (snd (for_events_list events body cs s0))"
    using "1.IH" [OF s0_def] "1.prems"(1) by simp
  then have "I s1" using r by simp
  then have "I (snd (body End (Elem t a x cs' tx) s1))"
    using "1.prems"(1) by blast
  then show ?case
    using r \<open>I s1\<close> by (simp add: s0_def [symmetric])
next
  case (2 events body s)
  then show ?case by simp
next
  case (3 events body c cs s)
  obtain c' s1 where r: "for_events events body c s = (c', s1)"
    by (cases "for_events events body c s")
  have "I (snd (for_events events body c s))" using 3 by simp
  then have "I s1" using r by simp
  then have "I (snd (for_events_list events body cs s1))"
    using "3.IH"(2) [OF r [symmetric]] "3.prems"(1) by simp
  then show ?case
    using r by (auto split: prod.splits)
qed

section \<open>Records yielded by parse\<close>

lemma new_class_ok:
  "pending_ok [''name'' \<mapsto> n, ''type'' \<mapsto> ''SymbolType.TYPE'', ''body'' \<mapsto> b,
               ''comment'' \<mapsto> c, ''id'' \<mapsto> i]"
  by (auto simp: pending_ok_def)

lemma pending_comment_ok: "pending_ok pc \<Longrightarrow> pending_ok (pc(''comment'' \<mapsto> c))"
  by (auto simp: pending_ok_def)

lemma pending_symbol_ok: "pending_ok pc \<Longrightarrow> symbol_ok pc"
  by (simp add: pending_ok_def symbol_ok_def)

lemma method_ok:
  "symbol_ok [''name'' \<mapsto> n, ''type'' \<mapsto> ''SymbolType.METHOD'', ''comment'' \<mapsto> '''',
              ''body'' \<mapsto> b, ''id'' \<mapsto> i]"
  by (auto simp: symbol_ok_def)

lemma state_ok_yield:
  "state_ok s \<Longrightarrow> symbol_ok r \<Longrightarrow> pending_class s' = pending_class s \<Longrightarrow>
   yielded s' = yielded s @ [r] \<Longrightarrow> state_ok s'"
  by (auto simp: state_ok_def)

lemma state_ok_same:
  "state_ok s \<Longrightarrow> pending_class s' = pending_class s \<Longrightarrow> yielded s' = yielded s \<Longrightarrow> state_ok s'"
  by (auto simp: state_ok_def)

lemma yield_methods_ok: "state_ok s \<Longrightarrow> state_ok (yield_methods uuid4 bodies s)"
proof (induction uuid4 bodies s rule: yield_methods.induct)
  case (1 uuid4 s)
  then show ?case by simp
next
  case (2 uuid4 body bodies s)
  show ?case
  proof (cases "class_name s")
    case None
    with 2 show ?thesis by (simp add: state_ok_def)
  next
    case (Some cn)
    have "state_ok (s\<lparr>methods_count := methods_count s + 1,
           yielded := yielded s @
                   [[''name'' \<mapsto> cn @ ''.'' @ fmt (get_attr body ''selector''),
                     ''type'' \<mapsto> ''SymbolType.METHOD'',
                     ''comment'' \<mapsto> '''',
                     ''body'' \<mapsto> py_strip (case etext body of None \<Rightarrow> [] | Some t \<Rightarrow> t),
                     ''id'' \<mapsto> uuid4 (uuid_calls s)]],
                 uuid_calls := Suc (uuid_calls s)\<rparr>)"
      by (rule state_ok_yield [OF "2.prems" method_ok]) simp_all
    with Some "2.IH" show ?thesis by simp
  qed
qed

lemma class_branch_ok: "state_ok s \<Longrightarrow> state_ok (snd (class_branch uuid4 tostring el s))"
  unfolding class_branch_def
  by (cases "extract_class_name (findtext el ''name'')")
     (simp_all add: state_ok_def new_class_ok)

lemma comment_branch_ok:
  assumes "state_ok s" and "pending_class s = Some pc"
  shows "state_ok (snd (comment_branch el pc s))"
proof -
  have pc: "pending_ok pc" using assms by (simp add: state_ok_def)
  have "symbol_ok pc" and "symbol_ok (pc(''comment'' \<mapsto> t))" for t
    using pc pending_symbol_ok pending_comment_ok by blast+
  then show ?thesis
    using assms(1) unfolding comment_branch_def
    by (simp add: state_ok_def Let_def split: sum.splits option.splits)
qed

lemma methods_branch_ok: "state_ok s \<Longrightarrow> state_ok (snd (methods_branch uuid4 el s))"
proof -
  assume ok: "state_ok s"
  have "state_ok (case extract_class_name (findtext el ''class-id'') of
                  Inl err \<Rightarrow> s | Inr cn \<Rightarrow> s\<lparr>class_name := Some cn\<rparr>)"
    using ok by (simp add: state_ok_def split: sum.splits)
  then show ?thesis
    unfolding methods_branch_def by (simp add: Let_def yield_methods_ok)
qed

lemma pending_branch_ok:
  "state_ok s \<Longrightarrow> pending_class s = Some pc \<Longrightarrow> state_ok (snd (pending_branch el pc s))"
  unfolding pending_branch_def by (simp add: state_ok_def pending_symbol_ok)

lemma loop_body_ok: "state_ok s \<Longrightarrow> state_ok (snd (loop_body uuid4 tostring ev el s))"
  unfolding loop_body_def
  by (simp add: class_branch_ok comment_branch_ok methods_branch_ok pending_branch_ok
      split: option.splits)

lemma parse_state_ok: "state_ok (snd (for_events evs (loop_body uuid4 tostring) root parse_init))"
  by (rule for_events_invariant(1)) (simp_all add: loop_body_ok, simp add: state_ok_def parse_init_def)

lemma symbol_ok_unfold:
  "D \<and> (A \<or> (B \<and> C)) \<Longrightarrow> (A \<Longrightarrow> \<not> B) \<Longrightarrow> D \<and> (A \<or> B) \<and> (B \<longrightarrow> C)"
  by blast

text \<open>
  C10: every record yielded by \<open>parse\<close>, also one yielded before an exception ended the
  generator, has exactly the five keys name, type, body, comment and id; its type is
  \<open>SymbolType.TYPE\<close> or \<open>SymbolType.METHOD\<close>; and a \<open>METHOD\<close> record has the empty string
  as comment.
\<close>

theorem parse_records_wellformed:
  "r \<in> set (fst (parse uuid4 tostring root)) \<Longrightarrow>
     dom r = {''name'', ''type'', ''body'', ''comment'', ''id''} \<and>
     (r ''type'' = Some ''SymbolType.TYPE'' \<or> r ''type'' = Some ''SymbolType.METHOD'') \<and>
     (r ''type'' = Some ''SymbolType.METHOD'' \<longrightarrow> r ''comment'' = Some '''')"
proof -
  assume "r \<in> set (fst (parse uuid4 tostring root))"
  then have "r \<in> set (yielded (snd (for_events [Start, End] (loop_body uuid4 tostring) root parse_init)))"
    by (simp add: parse_def Let_def)
  then have "symbol_ok r"
    using parse_state_ok [of "[Start, End]" uuid4 tostring root] unfolding state_ok_def by blast
  then show ?thesis
    unfolding symbol_ok_def by (rule symbol_ok_unfold) simp
qed


section \<open>One class, its comment, its methods\<close>

lemma loop_body_start: "loop_body uuid4 tostring Start el s = (el, s)"
  by (simp add: loop_body_def)

lemma loop_body_other_tag:
  "\<not> watched (tag el) \<Longrightarrow> loop_body uuid4 tostring ev el s = (el, s)"
  by (simp add: loop_body_def watched_def)

lemma tags_of_all:
  "(\<forall>t \<in> set (tags_of (Elem t0 a x cs tx)). P t) \<longleftrightarrow>
   P t0 \<and> (\<forall>c \<in> set cs. \<forall>t \<in> set (tags_of c). P t)"
  by auto

lemma for_events_unchanged:
  shows "\<forall>ev el s. P (tag el) \<longrightarrow> body ev el s = (el, s) \<Longrightarrow>
         \<forall>t \<in> set (tags_of e). P t \<Longrightarrow> for_events evs body e s = (e, s)"
    and "\<forall>ev el s. P (tag el) \<longrightarrow> body ev el s = (el, s) \<Longrightarrow>
         \<forall>c \<in> set es. \<forall>t \<in> set (tags_of c). P t \<Longrightarrow> for_events_list evs body es s = (es, s)"
proof (induction evs body e s and evs body es s rule: for_events_for_events_list.induct)
  case (1 events body t a x cs tx s)
  have t: "P t" and cs: "\<forall>c \<in> set cs. \<forall>t \<in> set (tags_of c). P t"
    using "1.prems"(2) unfolding tags_of_all by blast+
  have b: "body ev (Elem t a x cs tx) s = (Elem t a x cs tx, s)" for ev
    using "1.prems"(1) t by simp
  have s0: "(if Start \<in> set events then snd (body Start (Elem t a x cs tx) s) else s) = s"
    by (simp add: b)
  have "for_events_list events body cs s = (cs, s)"
    using "1.IH" [OF s0 [symmetric] "1.prems"(1) cs] by (simp only: s0)
  then show ?case
    by (simp add: b)
next
  case (2 events body s)
  then show ?case by simp
next
  case (3 events body c cs s)
  then show ?case by simp
qed

lemma for_events_plain:
  assumes "plain e"
  shows "for_events evs (loop_body uuid4 tostring) e s = (e, s)"
proof (rule for_events_unchanged(1) [where P = "\<lambda>t. \<not> watched t"])
  show "\<forall>ev el s. \<not> watched (tag el) \<longrightarrow> loop_body uuid4 tostring ev el s = (el, s)"
    by (simp add: loop_body_other_tag)
  show "\<forall>t \<in> set (tags_of e). \<not> watched t"
    using assms by (simp only: plain_def)
qed

lemma for_events_list_plain:
  assumes "\<forall>c \<in> set es. plain c"
  shows "for_events_list evs (loop_body uuid4 tostring) es s = (es, s)"
proof (rule for_events_unchanged(2) [where P = "\<lambda>t. \<not> watched t"])
  show "\<forall>ev el s. \<not> watched (tag el) \<longrightarrow> loop_body uuid4 tostring ev el s = (el, s)"
    by (simp add: loop_body_other_tag)
  show "\<forall>c \<in> set es. \<forall>t \<in> set (tags_of c). \<not> watched t"
    using assms by (simp only: plain_def)
qed

lemma for_events_leafy:
  assumes "\<forall>c \<in> set (children e). plain c"
  shows "for_events [Start, End] (loop_body uuid4 tostring) e s = loop_body uuid4 tostring End e s"
proof (cases e)
  case (Elem t a x cs tx)
  then have "for_events_list [Start, End] (loop_body uuid4 tostring) cs s = (cs, s)"
    using assms for_events_list_plain by simp
  then show ?thesis
    by (simp add: Elem loop_body_start)
qed

lemma findtext_or_Some: "findtext el p = Some v \<Longrightarrow> findtext_or el p d = v"
  by (auto simp: findtext_def findtext_or_def split: option.splits)

lemma yield_methods_two:
  assumes "class_name s = Some cn" and "raised s = None"
  shows "yield_methods uuid4 [b1, b2] s =
     s\<lparr>methods_count := methods_count s + 2,
       yielded := yielded s @
         [[''name'' \<mapsto> cn @ ''.'' @ fmt (get_attr b1 ''selector''),
           ''type'' \<mapsto> ''SymbolType.METHOD'', ''comment'' \<mapsto> '''',
           ''body'' \<mapsto> py_strip (case etext b1 of None \<Rightarrow> [] | Some t \<Rightarrow> t),
           ''id'' \<mapsto> uuid4 (uuid_calls s)],
          [''name'' \<mapsto> cn @ ''.'' @ fmt (get_attr b2 ''selector''),
           ''type'' \<mapsto> ''SymbolType.METHOD'', ''comment'' \<mapsto> '''',
           ''body'' \<mapsto> py_strip (case etext b2 of None \<Rightarrow> [] | Some t \<Rightarrow> t),
           ''id'' \<mapsto> uuid4 (Suc (uuid_calls s))]],
       uuid_calls := Suc (Suc (uuid_calls s))\<rparr>"
  using assms by (simp add: Let_def)

lemmas parse_eval =
  parse_def parse_init_def loop_body_def class_branch_def comment_branch_def methods_branch_def
  pending_branch_def extract_class_name_def findtext_def findtext_or_def find_child_def
  findall_def get_attr_def clear_def fmt_def py_strip_def py_isspace_def Let_def


lemma parse_sample_doc:
  "parse sample_uuid4 sample_tostring sample_doc =
     ([[''name'' \<mapsto> ''Foo'', ''type'' \<mapsto> ''SymbolType.TYPE'',
        ''body'' \<mapsto> ''<name/><super/>'', ''id'' \<mapsto> ''uuid-'', ''comment'' \<mapsto> ''A class.''],
       [''name'' \<mapsto> ''Foo.bar'', ''type'' \<mapsto> ''SymbolType.METHOD'', ''comment'' \<mapsto> '''',
        ''body'' \<mapsto> ''bar ^1'', ''id'' \<mapsto> ''uuid-i''],
       [''name'' \<mapsto> ''Foo.baz:'', ''type'' \<mapsto> ''SymbolType.METHOD'', ''comment'' \<mapsto> '''',
        ''body'' \<mapsto> ''baz: x ^x'', ''id'' \<mapsto> ''uuid-ii'']], None)"
proof -
  have p: "plain (Elem t a x [] tx)" if "\<not> watched t" for t a x tx
    using that by (simp add: plain_def)
  have nw: "\<not> watched ''st-source''" "\<not> watched ''name''" "\<not> watched ''super''"
    "\<not> watched ''class-id''" "\<not> watched ''body''"
    by (simp_all add: watched_def)
  have l: "\<forall>c \<in> set (children sample_class). plain c"
    "\<forall>c \<in> set (children sample_comment). plain c"
    "\<forall>c \<in> set (children sample_methods). plain c"
    by (simp_all add: sample_class_def sample_comment_def sample_methods_def p nw)
  show ?thesis
    unfolding parse_def sample_doc_def
    by (simp add: for_events_leafy [OF l(1)] for_events_leafy [OF l(2)] for_events_leafy [OF l(3)]
        loop_body_start loop_body_other_tag nw)
       (simp add: parse_eval sample_class_def sample_comment_def sample_methods_def
        sample_uuid4_def sample_tostring_def)
qed

theorem parse_records_wellformed_witness:
  "hd (fst (parse sample_uuid4 sample_tostring sample_doc))
     \<in> set (fst (parse sample_uuid4 sample_tostring sample_doc)) \<and>
   dom (hd (fst (parse sample_uuid4 sample_tostring sample_doc))) =
     {''name'', ''type'', ''body'', ''comment'', ''id''} \<and>
   hd (fst (parse sample_uuid4 sample_tostring sample_doc)) ''type'' = Some ''SymbolType.TYPE''"
proof -
  have m: "hd (fst (parse sample_uuid4 sample_tostring sample_doc))
     \<in> set (fst (parse sample_uuid4 sample_tostring sample_doc))"
    by (simp add: parse_sample_doc)
  have t: "hd (fst (parse sample_uuid4 sample_tostring sample_doc)) ''type'' = Some ''SymbolType.TYPE''"
    by (simp add: parse_sample_doc)
  from parse_records_wellformed [OF m] m t show ?thesis by blast
qed

text \<open>
  C2 is what the code does not do: a class that is followed by the next class, or by its
  methods block, before any comment is never yielded. In \<open>two_classes_doc\<close> class A is
  dropped when class B replaces it as the pending class; in \<open>class_methods_doc\<close> class A
  is still pending when the input ends, and only its method is yielded. The branch
  \<open>pending_branch\<close>, which would yield a pending class, is never reached: the conditions
  before it take every element with one of the three tags, except a comment met while no
  class is pending.
\<close>

theorem pending_class_dropped:
  "map (\<lambda>r. r ''name'') (fst (parse sample_uuid4 sample_tostring two_classes_doc)) = [Some ''B''] \<and>
   map (\<lambda>r. (r ''type'', r ''name'')) (fst (parse sample_uuid4 sample_tostring class_methods_doc)) =
     [(Some ''SymbolType.METHOD'', Some ''A.m'')]"
  by (simp add: parse_def parse_init_def loop_body_def class_branch_def comment_branch_def methods_branch_def
  pending_branch_def extract_class_name_def findtext_def findtext_or_def find_child_def
  findall_def get_attr_def clear_def fmt_def py_strip_def py_isspace_def Let_def two_classes_doc_def class_methods_doc_def sample_uuid4_def sample_tostring_def)

text \<open>
  C1, as stated, fails: the comment field is not the text of the comment's body but that
  text without its leading and trailing whitespace.
\<close>

theorem comment_is_stripped:
  "findtext sample_comment ''body'' = Some ''  A class. '' \<and>
   hd (fst (parse sample_uuid4 sample_tostring sample_doc)) ''comment'' = Some ''A class.''"
  by (simp add: parse_sample_doc) (simp add: sample_comment_def findtext_def find_child_def)

text \<open>
  C1, amended: for a document whose root holds one class (with a name child), then one
  comment whose class-id names the same class, then one methods block with that
  class-id and two bodies with selectors, and no further class, comment or methods
  element inside them, \<open>parse\<close> of src/sou\_parser.py yields exactly three records and
  raises nothing: first the \<open>TYPE\<close> record whose comment field is the text of the
  comment's body with leading and trailing whitespace stripped, then the two \<open>METHOD\<close>
  records in document order, named class name, dot, selector. Two class-ids name the
  same class when \<open>extract_class_name\<close> gives the same for both.
\<close>

theorem parse_class_comment_methods:
  assumes tags: "tag cls = ''class''" "tag com = ''comment''" "tag mth = ''methods''" "\<not> watched rt"
    and leaves: "\<forall>c \<in> set (children cls @ children com @ children mth). plain c"
    and name: "findtext cls ''name'' = Some nm" "extract_class_name (Some nm) = Inr cn"
    and comment_id: "findtext com ''class-id'' = Some cid" "extract_class_name (Some cid) = Inr cn"
    and comment_body: "findtext com ''body'' = Some ctext"
    and methods_id: "findtext mth ''class-id'' = Some mid" "extract_class_name (Some mid) = Inr cn"
    and bodies: "findall mth ''body'' = [first_body, second_body]"
      "get_attr first_body ''selector'' = Some first_selector" "get_attr second_body ''selector'' = Some second_selector"
  shows "parse uuid4 tostring (Elem rt ra rx [cls, com, mth] rtl) =
     ([[''name'' \<mapsto> cn, ''type'' \<mapsto> ''SymbolType.TYPE'',
        ''body'' \<mapsto> py_strip (concat (map tostring (children cls))),
        ''comment'' \<mapsto> py_strip ctext, ''id'' \<mapsto> uuid4 0],
       [''name'' \<mapsto> cn @ ''.'' @ first_selector, ''type'' \<mapsto> ''SymbolType.METHOD'', ''comment'' \<mapsto> '''',
        ''body'' \<mapsto> py_strip (case etext first_body of None \<Rightarrow> [] | Some t \<Rightarrow> t), ''id'' \<mapsto> uuid4 1],
       [''name'' \<mapsto> cn @ ''.'' @ second_selector, ''type'' \<mapsto> ''SymbolType.METHOD'', ''comment'' \<mapsto> '''',
        ''body'' \<mapsto> py_strip (case etext second_body of None \<Rightarrow> [] | Some t \<Rightarrow> t), ''id'' \<mapsto> uuid4 2]],
      None)"
proof -
  let ?body = "loop_body uuid4 tostring"
  let ?pc = "[''name'' \<mapsto> cn, ''type'' \<mapsto> ''SymbolType.TYPE'',
              ''body'' \<mapsto> py_strip (concat (map tostring (children cls))),
              ''comment'' \<mapsto> '''', ''id'' \<mapsto> uuid4 0]"
  define s1 where "s1 = parse_init\<lparr>pending_class := Some ?pc, uuid_calls := Suc 0\<rparr>"
  define s2 where "s2 = s1\<lparr>pending_class := None, types_count := 1,
                             yielded := [?pc(''comment'' \<mapsto> py_strip ctext)]\<rparr>"
  define s3 where "s3 = yield_methods uuid4 [first_body, second_body] (s2\<lparr>class_name := Some cn\<rparr>)"
  have w: "watched ''class''" "watched ''comment''" "watched ''methods''"
    by (simp_all add: watched_def)
  have c1: "for_events [Start, End] ?body cls parse_init = (cls, s1)"
    using leaves tags(1) name
    by (simp add: for_events_leafy loop_body_def class_branch_def s1_def parse_init_def)
  have c2: "for_events [Start, End] ?body com s1 = (clear com, s2)"
    using leaves tags(2) comment_id comment_body
    by (simp add: for_events_leafy loop_body_def comment_branch_def findtext_or_Some
        s1_def s2_def parse_init_def)
  have r3: "raised s3 = None" "yielded s3 = yielded s2 @
         [[''name'' \<mapsto> cn @ ''.'' @ first_selector,
           ''type'' \<mapsto> ''SymbolType.METHOD'', ''comment'' \<mapsto> '''',
           ''body'' \<mapsto> py_strip (case etext first_body of None \<Rightarrow> [] | Some t \<Rightarrow> t),
           ''id'' \<mapsto> uuid4 1],
          [''name'' \<mapsto> cn @ ''.'' @ second_selector,
           ''type'' \<mapsto> ''SymbolType.METHOD'', ''comment'' \<mapsto> '''',
           ''body'' \<mapsto> py_strip (case etext second_body of None \<Rightarrow> [] | Some t \<Rightarrow> t),
           ''id'' \<mapsto> uuid4 2]]"
    unfolding s3_def
    by (subst yield_methods_two [where cn = cn];
        simp add: s2_def s1_def parse_init_def bodies fmt_def numeral_2_eq_2)+
  have c3: "for_events [Start, End] ?body mth s2 = (clear mth, s3)"
    using leaves tags(3) methods_id r3(1)
    by (simp add: for_events_leafy loop_body_def methods_branch_def bodies(1) s3_def
        s2_def s1_def parse_init_def)
  have root: "for_events [Start, End] ?body (Elem rt ra rx [cls, com, mth] rtl) parse_init =
        (Elem rt ra rx [cls, clear com, clear mth] rtl, s3)"
    using tags(4) by (simp add: loop_body_start loop_body_other_tag c1 c2 c3)
  have "?pc(''comment'' \<mapsto> py_strip ctext) =
        [''name'' \<mapsto> cn, ''type'' \<mapsto> ''SymbolType.TYPE'',
         ''body'' \<mapsto> py_strip (concat (map tostring (children cls))),
         ''comment'' \<mapsto> py_strip ctext, ''id'' \<mapsto> uuid4 0]"
    by (rule ext) simp
  then show ?thesis
    unfolding parse_def root by (simp add: r3 s2_def)
qed

theorem parse_class_comment_methods_witness:
  "parse sample_uuid4 sample_tostring sample_doc =
     ([[''name'' \<mapsto> ''Foo'', ''type'' \<mapsto> ''SymbolType.TYPE'',
        ''body'' \<mapsto> ''<name/><super/>'',
        ''comment'' \<mapsto> ''A class.'', ''id'' \<mapsto> ''uuid-''],
       [''name'' \<mapsto> ''Foo.bar'', ''type'' \<mapsto> ''SymbolType.METHOD'', ''comment'' \<mapsto> [],
        ''body'' \<mapsto> ''bar ^1'', ''id'' \<mapsto> ''uuid-i''],
       [''name'' \<mapsto> ''Foo.baz:'', ''type'' \<mapsto> ''SymbolType.METHOD'', ''comment'' \<mapsto> [],
        ''body'' \<mapsto> ''baz: x ^x'', ''id'' \<mapsto> ''uuid-ii'']],
      None)"
proof -
  have p: "plain (Elem t a x [] tx)" if "\<not> watched t" for t a x tx
    using that by (simp add: plain_def)
  have nw: "\<not> watched ''st-source''" "\<not> watched ''name''" "\<not> watched ''super''"
    "\<not> watched ''class-id''" "\<not> watched ''body''"
    by (simp_all add: watched_def)
  have tags: "tag sample_class = ''class''" "tag sample_comment = ''comment''"
    "tag sample_methods = ''methods''"
    by (simp_all add: sample_class_def sample_comment_def sample_methods_def)
  have leaves: "\<forall>c \<in> set (children sample_class @ children sample_comment @ children sample_methods). plain c"
    by (simp add: sample_class_def sample_comment_def sample_methods_def p nw)
  have e: "extract_class_name (Some ''Foo'') = Inr ''Foo''"
    by (simp add: extract_class_name_def)
  have f: "findtext sample_class ''name'' = Some ''Foo''"
    "findtext sample_comment ''class-id'' = Some ''Foo''"
    "findtext sample_comment ''body'' = Some ''  A class. ''"
    "findtext sample_methods ''class-id'' = Some ''Foo''"
    by (simp_all add: sample_class_def sample_comment_def sample_methods_def findtext_def find_child_def)
  have b: "findall sample_methods ''body'' =
      [Elem ''body'' [(''selector'', ''bar'')] (Some ''bar ^1'') [] None,
       Elem ''body'' [(''selector'', ''baz:'')] (Some ''baz: x ^x '') [] None]"
    by (simp add: sample_methods_def findall_def)
  have g: "get_attr (Elem ''body'' [(''selector'', ''bar'')] (Some ''bar ^1'') [] None) ''selector'' = Some ''bar''"
    "get_attr (Elem ''body'' [(''selector'', ''baz:'')] (Some ''baz: x ^x '') [] None) ''selector'' = Some ''baz:''"
    by (simp_all add: get_attr_def)
  from parse_class_comment_methods [OF tags nw(1) leaves f(1) e f(2) e f(3) f(4) e b g,
      of sample_uuid4 sample_tostring "[]" None None]
  show ?thesis
    unfolding sample_doc_def
    by (simp add: sample_class_def sample_tostring_def sample_uuid4_def py_strip_def py_isspace_def
        numeral_2_eq_2)
qed

section \<open>Identifiers come from the UUID source\<close>

lemma for_events_simulation:
  shows "\<forall>ev el s. body1 ev el (F s) = (fst (body0 ev el s), F (snd (body0 ev el s))) \<Longrightarrow>
         for_events evs body1 e (F s) =
           (fst (for_events evs body0 e s), F (snd (for_events evs body0 e s)))"
    and "\<forall>ev el s. body1 ev el (F s) = (fst (body0 ev el s), F (snd (body0 ev el s))) \<Longrightarrow>
         for_events_list evs body1 es (F s) =
           (fst (for_events_list evs body0 es s), F (snd (for_events_list evs body0 es s)))"
proof (induction evs body0 e s and evs body0 es s rule: for_events_for_events_list.induct)
  case (1 events body0 t a x cs tx s)
  define s0 where "s0 = (if Start \<in> set events then snd (body0 Start (Elem t a x cs tx) s) else s)"
  have st: "(if Start \<in> set events then snd (body1 Start (Elem t a x cs tx) (F s)) else F s) = F s0"
    using "1.prems" by (simp add: s0_def)
  obtain cs' s1 where r: "for_events_list events body0 cs s0 = (cs', s1)"
    by (cases "for_events_list events body0 cs s0")
  have "for_events_list events body1 cs (F s0) = (cs', F s1)"
    using "1.IH" [OF s0_def "1.prems"] r by simp
  then show ?case
    using "1.prems" r by (simp add: s0_def [symmetric] st)
next
  case (2 events body0 s)
  then show ?case by simp
next
  case (3 events body0 c cs s)
  obtain c' s1 where r: "for_events events body0 c s = (c', s1)"
    by (cases "for_events events body0 c s")
  obtain cs' s2 where r2: "for_events_list events body0 cs s1 = (cs', s2)"
    by (cases "for_events_list events body0 cs s1")
  have a: "for_events events body1 c (F s) = (c', F s1)"
    using "3.IH"(1) [OF "3.prems"] r by simp
  have b: "for_events_list events body1 cs (F s1) = (cs', F s2)"
    using "3.IH"(2) [OF refl r [symmetric] "3.prems"] r2 by simp
  show ?case by (simp add: r r2 a b)
qed

lemma relabel_new: "relabel u (m(''id'' \<mapsto> index_uuid4 n)) = m(''id'' \<mapsto> u n)"
  by (simp add: relabel_def index_uuid4_def)

lemma relabel_comment: "relabel u (pc(''comment'' \<mapsto> c)) = (relabel u pc)(''comment'' \<mapsto> c)"
  by (cases "pc ''id''") (simp_all add: relabel_def fun_upd_twist)

lemma relabel_name: "relabel u pc ''name'' = pc ''name''"
  by (cases "pc ''id''") (simp_all add: relabel_def)

lemma relabel_other: "f \<noteq> ''id'' \<Longrightarrow> relabel u r f = r f"
  by (cases "r ''id''") (simp_all add: relabel_def)

lemma yield_methods_relabel:
  "yield_methods u bodies (relabel_state u s) = relabel_state u (yield_methods index_uuid4 bodies s)"
proof (induction bodies arbitrary: s)
  case Nil
  then show ?case by simp
next
  case (Cons body bodies)
  show ?case
  proof (cases "class_name s")
    case None
    then show ?thesis by (simp add: relabel_state_def)
  next
    case (Some cn)
    define r where "r = (\<lambda>i. [''name'' \<mapsto> cn @ ''.'' @ fmt (get_attr body ''selector''),
                     ''type'' \<mapsto> ''SymbolType.METHOD'',
                     ''comment'' \<mapsto> '''',
                     ''body'' \<mapsto> py_strip (case etext body of None \<Rightarrow> [] | Some t \<Rightarrow> t),
                     ''id'' \<mapsto> i])"
    define s1 where "s1 = s\<lparr>methods_count := methods_count s + 1,
        yielded := yielded s @ [r (index_uuid4 (uuid_calls s))], uuid_calls := Suc (uuid_calls s)\<rparr>"
    have rl: "relabel u (r (index_uuid4 n)) = r (u n)" for n
      by (simp add: r_def relabel_new)
    have a: "yield_methods index_uuid4 (body # bodies) s = yield_methods index_uuid4 bodies s1"
      using Some by (simp add: s1_def r_def)
    have b: "yield_methods u (body # bodies) (relabel_state u s) =
             yield_methods u bodies (relabel_state u s1)"
      using Some by (cases s) (simp add: s1_def r_def relabel_state_def relabel_new)
    show ?thesis
      unfolding a b by (rule Cons.IH)
  qed
qed

lemma class_branch_relabel:
  "class_branch u t el (relabel_state u s) =
     (fst (class_branch index_uuid4 t el s), relabel_state u (snd (class_branch index_uuid4 t el s)))"
  by (cases "extract_class_name (findtext el ''name'')")
     (simp_all add: class_branch_def relabel_state_def relabel_new)

lemma comment_branch_relabel:
  "comment_branch el (relabel u pc) (relabel_state u s) =
     (fst (comment_branch el pc s), relabel_state u (snd (comment_branch el pc s)))"
  by (cases "extract_class_name (Some (findtext_or el ''class-id'' ''''))"; cases "pc ''name''")
     (simp_all add: comment_branch_def relabel_state_def relabel_name relabel_comment)

lemma methods_branch_relabel:
  "methods_branch u el (relabel_state u s) =
     (fst (methods_branch index_uuid4 el s), relabel_state u (snd (methods_branch index_uuid4 el s)))"
proof -
  have c: "relabel_state u s\<lparr>class_name := x\<rparr> = relabel_state u (s\<lparr>class_name := x\<rparr>)" for x
    by (simp add: relabel_state_def)
  have r: "raised (relabel_state u s') = raised s'" for s'
    by (simp add: relabel_state_def)
  show ?thesis
    by (cases "extract_class_name (findtext el ''class-id'')")
       (simp_all add: methods_branch_def Let_def c yield_methods_relabel r)
qed

lemma pending_branch_relabel:
  "pending_branch el (relabel u pc) (relabel_state u s) =
     (fst (pending_branch el pc s), relabel_state u (snd (pending_branch el pc s)))"
  by (simp add: pending_branch_def relabel_state_def)

lemma loop_body_relabel:
  "loop_body u t ev el (relabel_state u s) =
     (fst (loop_body index_uuid4 t ev el s), relabel_state u (snd (loop_body index_uuid4 t ev el s)))"
proof -
  have r: "raised (relabel_state u s) = raised s"
    and p: "pending_class (relabel_state u s) = map_option (relabel u) (pending_class s)"
    by (simp_all add: relabel_state_def)
  show ?thesis
    unfolding loop_body_def r p
    by (cases "pending_class s")
       (simp_all add: class_branch_relabel comment_branch_relabel methods_branch_relabel
          pending_branch_relabel)
qed

lemma parse_relabel:
  "parse u t root = (map (relabel u) (fst (parse index_uuid4 t root)), snd (parse index_uuid4 t root))"
proof -
  have i: "parse_init = relabel_state u parse_init"
    by (simp add: relabel_state_def parse_init_def)
  have "for_events [Start, End] (loop_body u t) root (relabel_state u parse_init) =
     (fst (for_events [Start, End] (loop_body index_uuid4 t) root parse_init),
      relabel_state u (snd (for_events [Start, End] (loop_body index_uuid4 t) root parse_init)))"
    by (rule for_events_simulation(1)) (simp add: loop_body_relabel)
  then show ?thesis
    unfolding parse_def by (subst i) (simp add: relabel_state_def Let_def)
qed

lemma index_uuid4_length: "length (index_uuid4 k) = k"
  by (simp add: index_uuid4_def)

lemma draws_ok_add:
  assumes "draws_ok s"
    and "set (records_of s') \<subseteq> insert r (set (records_of s))"
    and "distinct (map draw_of (records_of s')) \<or>
         (\<exists>xs ys. records_of s' = xs @ r # ys \<and> set xs \<union> set ys \<subseteq> set (records_of s) \<and>
                   distinct (map draw_of (xs @ ys)))"
    and "r ''id'' = Some (index_uuid4 (uuid_calls s))"
    and "uuid_calls s' = Suc (uuid_calls s)"
  shows "draws_ok s'"
proof -
  have old: "\<forall>x \<in> set (records_of s). \<exists>k < uuid_calls s. x ''id'' = Some (index_uuid4 k)"
    using assms(1) by (simp add: draws_ok_def)
  have new: "draw_of r = Some (uuid_calls s)"
    using assms(4) by (simp add: draw_of_def index_uuid4_length)
  have fresh: "draw_of x \<noteq> draw_of r" if "x \<in> set (records_of s)" for x
    using old that new by (auto simp: draw_of_def index_uuid4_length)
  have d: "distinct (map draw_of (records_of s'))"
    using assms(3)
  proof
    assume "distinct (map draw_of (records_of s'))"
    then show ?thesis .
  next
    assume "\<exists>xs ys. records_of s' = xs @ r # ys \<and> set xs \<union> set ys \<subseteq> set (records_of s) \<and>
                   distinct (map draw_of (xs @ ys))"
    then obtain xs ys where e: "records_of s' = xs @ r # ys"
      and sub: "set xs \<union> set ys \<subseteq> set (records_of s)" and dd: "distinct (map draw_of (xs @ ys))"
      by blast
    have "draw_of r \<notin> draw_of ` (set xs \<union> set ys)"
      using fresh sub by (metis (no_types, lifting) imageE subsetD)
    then show ?thesis using dd by (auto simp: e)
  qed
  have "\<exists>k < uuid_calls s'. x ''id'' = Some (index_uuid4 k)" if "x \<in> set (records_of s')" for x
  proof (cases "x = r")
    case True
    then show ?thesis using assms(4,5) by auto
  next
    case False
    then have "x \<in> set (records_of s)" using that assms(2) by auto
    then show ?thesis using old assms(5) by (metis less_Suc_eq)
  qed
  then show ?thesis using d by (simp add: draws_ok_def)
qed

lemma draws_ok_same:
  assumes "draws_ok s" and "map (\<lambda>r. r ''id'') (records_of s') = map (\<lambda>r. r ''id'') (records_of s)"
    and "uuid_calls s' = uuid_calls s"
  shows "draws_ok s'"
proof -
  have m: "map draw_of (records_of s') = map draw_of (records_of s)"
  proof -
    have h: "map draw_of xs = map (map_option length) (map (\<lambda>r. r ''id'') xs)" for xs :: "symbol list"
      by (simp add: draw_of_def comp_def)
    show ?thesis by (simp only: h assms(2))
  qed
  have "(\<lambda>r. r ''id'') ` set (records_of s') = (\<lambda>r. r ''id'') ` set (records_of s)"
    using assms(2) by (metis set_map)
  then have "\<forall>r \<in> set (records_of s'). \<exists>x \<in> set (records_of s). r ''id'' = x ''id''"
    by (metis (mono_tags, lifting) imageE imageI)
  then show ?thesis
    using assms(1,3) unfolding draws_ok_def m by metis
qed

lemma class_branch_draws: "draws_ok s \<Longrightarrow> draws_ok (snd (class_branch index_uuid4 t el s))"
proof (cases "extract_class_name (findtext el ''name'')")
  case (Inl err)
  assume "draws_ok s"
  then have "draws_ok (s\<lparr>raised := Some err\<rparr>)"
    by (rule draws_ok_same) (simp_all add: records_of_def)
  then show ?thesis by (simp add: class_branch_def Inl)
next
  case (Inr name)
  assume ok: "draws_ok s"
  define r where "r = [''name'' \<mapsto> name, ''type'' \<mapsto> ''SymbolType.TYPE'',
      ''body'' \<mapsto> py_strip (concat (map t (children el))), ''comment'' \<mapsto> '''',
      ''id'' \<mapsto> index_uuid4 (uuid_calls s)]"
  define s' where "s' = s\<lparr>pending_class := Some r, uuid_calls := Suc (uuid_calls s)\<rparr>"
  have d: "distinct (map draw_of (yielded s))"
    using ok by (simp add: draws_ok_def records_of_def)
  have "draws_ok s'"
  proof (rule draws_ok_add [OF ok, where r = r])
    show "set (records_of s') \<subseteq> insert r (set (records_of s))"
      by (auto simp: s'_def records_of_def)
    show "distinct (map draw_of (records_of s')) \<or>
         (\<exists>xs ys. records_of s' = xs @ r # ys \<and> set xs \<union> set ys \<subseteq> set (records_of s) \<and>
                   distinct (map draw_of (xs @ ys)))"
      by (rule disjI2, rule exI [of _ "yielded s"], rule exI [of _ "[]"])
         (use d in \<open>auto simp: s'_def records_of_def\<close>)
    show "r ''id'' = Some (index_uuid4 (uuid_calls s))" by (simp add: r_def)
    show "uuid_calls s' = Suc (uuid_calls s)" by (simp add: s'_def)
  qed
  then show ?thesis by (simp add: class_branch_def Inr s'_def r_def)
qed

lemma comment_branch_draws:
  assumes "draws_ok s" and "pending_class s = Some pc"
  shows "draws_ok (snd (comment_branch el pc s))"
proof -
  have a: "draws_ok (s\<lparr>raised := e\<rparr>)" for e
    using assms(1) by (rule draws_ok_same) (simp_all add: records_of_def)
  have b: "draws_ok (s\<lparr>pending_class := None, types_count := k, yielded := yielded s @ [pc1]\<rparr>)"
    if "pc1 ''id'' = pc ''id''" for pc1 k
    using assms(1) by (rule draws_ok_same) (simp_all add: records_of_def assms(2) that)
  show ?thesis
    unfolding comment_branch_def
    by (cases "extract_class_name (Some (findtext_or el ''class-id'' ''''))"; cases "pc ''name''")
       (simp_all add: a b Let_def)
qed

lemma yield_methods_draws: "draws_ok s \<Longrightarrow> draws_ok (yield_methods index_uuid4 bodies s)"
proof (induction bodies arbitrary: s)
  case Nil
  then show ?case by simp
next
  case (Cons body bodies)
  show ?case
  proof (cases "class_name s")
    case None
    have "draws_ok (s\<lparr>methods_count := methods_count s + 1, raised := Some UnboundLocalError\<rparr>)"
      using Cons.prems by (rule draws_ok_same) (simp_all add: records_of_def)
    then show ?thesis using None by simp
  next
    case (Some cn)
    define r where "r = [''name'' \<mapsto> cn @ ''.'' @ fmt (get_attr body ''selector''),
                     ''type'' \<mapsto> ''SymbolType.METHOD'',
                     ''comment'' \<mapsto> '''',
                     ''body'' \<mapsto> py_strip (case etext body of None \<Rightarrow> [] | Some t \<Rightarrow> t),
                     ''id'' \<mapsto> index_uuid4 (uuid_calls s)]"
    define s1 where "s1 = s\<lparr>methods_count := methods_count s + 1,
        yielded := yielded s @ [r], uuid_calls := Suc (uuid_calls s)\<rparr>"
    have a: "yield_methods index_uuid4 (body # bodies) s = yield_methods index_uuid4 bodies s1"
      using Some by (simp add: s1_def r_def)
    have d: "distinct (map draw_of (records_of s))"
      using Cons.prems by (simp add: draws_ok_def)
    have "draws_ok s1"
    proof (rule draws_ok_add [OF Cons.prems, where r = r])
      show "set (records_of s1) \<subseteq> insert r (set (records_of s))"
        by (auto simp: s1_def records_of_def)
      show "distinct (map draw_of (records_of s1)) \<or>
         (\<exists>xs ys. records_of s1 = xs @ r # ys \<and> set xs \<union> set ys \<subseteq> set (records_of s) \<and>
                   distinct (map draw_of (xs @ ys)))"
        by (rule disjI2, rule exI [of _ "yielded s"],
            rule exI [of _ "case pending_class s of None \<Rightarrow> [] | Some pc \<Rightarrow> [pc]"])
           (use d in \<open>auto simp: s1_def records_of_def\<close>)
      show "r ''id'' = Some (index_uuid4 (uuid_calls s))" by (simp add: r_def)
      show "uuid_calls s1 = Suc (uuid_calls s)" by (simp add: s1_def)
    qed
    then show ?thesis unfolding a by (rule Cons.IH)
  qed
qed

lemma methods_branch_draws: "draws_ok s \<Longrightarrow> draws_ok (snd (methods_branch index_uuid4 el s))"
proof -
  assume ok: "draws_ok s"
  have "draws_ok (case extract_class_name (findtext el ''class-id'') of
                  Inl err \<Rightarrow> s | Inr cn \<Rightarrow> s\<lparr>class_name := Some cn\<rparr>)"
  proof (cases "extract_class_name (findtext el ''class-id'')")
    case (Inl a)
    then show ?thesis using ok by simp
  next
    case (Inr cn)
    have "draws_ok (s\<lparr>class_name := Some cn\<rparr>)"
      using ok by (rule draws_ok_same) (simp_all add: records_of_def)
    then show ?thesis using Inr by simp
  qed
  then show ?thesis
    unfolding methods_branch_def by (simp add: Let_def yield_methods_draws)
qed

lemma pending_branch_draws:
  "draws_ok s \<Longrightarrow> pending_class s = Some pc \<Longrightarrow> draws_ok (snd (pending_branch el pc s))"
  unfolding pending_branch_def
  by (simp, rule draws_ok_same) (simp_all add: records_of_def)

lemma loop_body_draws: "draws_ok s \<Longrightarrow> draws_ok (snd (loop_body index_uuid4 t ev el s))"
  unfolding loop_body_def
  by (simp add: class_branch_draws comment_branch_draws methods_branch_draws pending_branch_draws
      split: option.splits)

lemma parse_draws:
  "\<exists>ks. distinct ks \<and>
     map (\<lambda>r. r ''id'') (fst (parse index_uuid4 t root)) = map (\<lambda>k. Some (index_uuid4 k)) ks"
proof -
  define s where "s = snd (for_events [Start, End] (loop_body index_uuid4 t) root parse_init)"
  have "draws_ok parse_init"
    by (simp add: draws_ok_def records_of_def parse_init_def)
  then have ok: "draws_ok s"
    unfolding s_def by (rule for_events_invariant(1) [rotated]) (simp add: loop_body_draws)
  define ks where "ks = map (\<lambda>r. length (the (r ''id''))) (yielded s)"
  have i: "\<forall>r \<in> set (yielded s). \<exists>k. r ''id'' = Some (index_uuid4 k)"
    using ok by (auto simp: draws_ok_def records_of_def)
  have "distinct (map draw_of (yielded s))"
    using ok by (simp add: draws_ok_def records_of_def)
  moreover have "map draw_of (yielded s) = map Some ks"
    using i by (auto simp: ks_def draw_of_def)
  ultimately have "distinct ks" by (simp add: distinct_map)
  moreover have "map (\<lambda>r. r ''id'') (yielded s) = map (\<lambda>k. Some (index_uuid4 k)) ks"
    using i by (auto simp: ks_def index_uuid4_length)
  ultimately show ?thesis
    by (auto simp: parse_def s_def Let_def)
qed

lemma relabel_id: "r ''id'' = Some (index_uuid4 k) \<Longrightarrow> relabel u r ''id'' = Some (u k)"
  by (simp add: relabel_def index_uuid4_length)

text \<open>
  C8: the id of a record is the value that the UUID source gave at one of its draws, and
  nothing else of the run depends on the source. For two runs of \<open>parse\<close> on the same
  file, with sources \<open>u1\<close> and \<open>u2\<close>: both end the same way and yield equally many records;
  there is one list of pairwise different draws, fixed by the file alone, such that the
  i-th record of either run has as id what its source gave at the i-th of these draws (so
  no two records of a run share a draw); every field other than id is equal in the two
  runs; and when the two sources differ at every draw, as two runs of \<open>uuid.uuid4()\<close> do,
  every record's id differs between the runs.
\<close>

theorem parse_ids_from_source:
  "snd (parse u1 t root) = snd (parse u2 t root) \<and>
   length (fst (parse u1 t root)) = length (fst (parse u2 t root)) \<and>
   (\<exists>ks. distinct ks \<and>
      map (\<lambda>r. r ''id'') (fst (parse u1 t root)) = map (\<lambda>k. Some (u1 k)) ks \<and>
      map (\<lambda>r. r ''id'') (fst (parse u2 t root)) = map (\<lambda>k. Some (u2 k)) ks) \<and>
   (\<forall>i < length (fst (parse u1 t root)). \<forall>f. f \<noteq> ''id'' \<longrightarrow>
      (fst (parse u1 t root) ! i) f = (fst (parse u2 t root) ! i) f) \<and>
   ((\<forall>k. u1 k \<noteq> u2 k) \<longrightarrow>
    (\<forall>i < length (fst (parse u1 t root)).
       (fst (parse u1 t root) ! i) ''id'' \<noteq> (fst (parse u2 t root) ! i) ''id''))"
proof -
  define rs where "rs = fst (parse index_uuid4 t root)"
  have p: "parse u t root = (map (relabel u) rs, snd (parse index_uuid4 t root))" for u
    unfolding rs_def by (rule parse_relabel)
  obtain ks where ks: "distinct ks" "map (\<lambda>r. r ''id'') rs = map (\<lambda>k. Some (index_uuid4 k)) ks"
    using parse_draws [of t root] unfolding rs_def by blast
  have len: "length ks = length rs"
    using ks(2) by (metis length_map)
  have at: "(rs ! i) ''id'' = Some (index_uuid4 (ks ! i))" if "i < length rs" for i
    using ks(2) that len by (metis (mono_tags, lifting) nth_map)
  have ids: "map (\<lambda>r. r ''id'') (map (relabel u) rs) = map (\<lambda>k. Some (u k)) ks" for u
    by (rule nth_equalityI) (simp_all add: len relabel_id at)
  have other: "(map (relabel u1) rs ! i) f = (map (relabel u2) rs ! i) f"
    if "i < length rs" "f \<noteq> ''id''" for i f
    using that by (simp add: relabel_other)
  have differ: "(map (relabel u1) rs ! i) ''id'' \<noteq> (map (relabel u2) rs ! i) ''id''"
    if "i < length rs" "\<forall>k. u1 k \<noteq> u2 k" for i
    using that by (simp add: relabel_id at)
  have f: "fst (parse u t root) = map (relabel u) rs" for u
    using p [of u] by (metis fst_conv)
  have c1: "snd (parse u1 t root) = snd (parse u2 t root)"
    using p [of u1] p [of u2] by (metis snd_conv)
  have c2: "length (fst (parse u1 t root)) = length (fst (parse u2 t root))"
    by (simp add: f)
  have c3: "\<exists>ks. distinct ks \<and>
      map (\<lambda>r. r ''id'') (fst (parse u1 t root)) = map (\<lambda>k. Some (u1 k)) ks \<and>
      map (\<lambda>r. r ''id'') (fst (parse u2 t root)) = map (\<lambda>k. Some (u2 k)) ks"
    unfolding f using ks(1) ids by blast
  have c4: "\<forall>i < length (fst (parse u1 t root)). \<forall>f. f \<noteq> ''id'' \<longrightarrow>
      (fst (parse u1 t root) ! i) f = (fst (parse u2 t root) ! i) f"
    unfolding f using other by simp
  have c5: "(\<forall>k. u1 k \<noteq> u2 k) \<longrightarrow>
    (\<forall>i < length (fst (parse u1 t root)).
       (fst (parse u1 t root) ! i) ''id'' \<noteq> (fst (parse u2 t root) ! i) ''id'')"
    unfolding f using differ by simp
  show ?thesis
    by (rule conjI [OF c1 conjI [OF c2 conjI [OF c3 conjI [OF c4 c5]]]])
qed

lemma sample_uuid4_differs: "sample_uuid4 k \<noteq> index_uuid4 k"
proof
  assume "sample_uuid4 k = index_uuid4 k"
  then have "length (sample_uuid4 k) = length (index_uuid4 k)" by simp
  then show False by (simp add: sample_uuid4_def index_uuid4_def)
qed

theorem parse_ids_from_source_witness:
  "(\<forall>k. sample_uuid4 k \<noteq> index_uuid4 k) \<and>
   0 < length (fst (parse sample_uuid4 sample_tostring sample_doc)) \<and>
   (fst (parse sample_uuid4 sample_tostring sample_doc) ! 0) ''id'' \<noteq>
   (fst (parse index_uuid4 sample_tostring sample_doc) ! 0) ''id'' \<and>
   (fst (parse sample_uuid4 sample_tostring sample_doc) ! 0) ''name'' =
   (fst (parse index_uuid4 sample_tostring sample_doc) ! 0) ''name''"
proof -
  have d: "\<forall>k. sample_uuid4 k \<noteq> index_uuid4 k"
    by (simp add: sample_uuid4_differs)
  have l: "0 < length (fst (parse sample_uuid4 sample_tostring sample_doc))"
    by (simp add: parse_sample_doc)
  have n: "''name'' \<noteq> ''id''" by simp
  note t = parse_ids_from_source [of sample_uuid4 sample_tostring sample_doc index_uuid4]
  note same = t [THEN conjunct2, THEN conjunct2, THEN conjunct2, THEN conjunct1, rule_format, OF l n]
  note differ = t [THEN conjunct2, THEN conjunct2, THEN conjunct2, THEN conjunct2, rule_format, OF sample_uuid4_differs l]
  show ?thesis
    using d l same differ by (intro conjI)
qed

section \<open>balance\_xml\_tags only appends\<close>










section \<open>balance\_xml\_tags closes what it tracks\<close>







lemma match_closing_lt: "match_closing x \<noteq> None \<Longrightarrow> x \<noteq> [] \<and> hd x = CHR ''<''"
  by (auto simp: match_closing_def split: list.splits if_splits)



















lemma cut_sample_eq:
  "cut_sample = ''<st-source>\<newline><methods>\<newline><class-id>Foo</class-id> <category>accessing</category>\<newline><body>bar\<newline>''"
  by code_simp

lemma sou_file_nested: "properly_nested sou_file"
  by code_simp



section \<open>The three tiers of truncate\_xml\_to\_lines\<close>






section \<open>create\_indexes run twice\<close>








end
